theory Spec2Isabelle
  imports Complex_Main
begin

section \<open>The number type\<close>

text \<open>
  The program computes with the \<^verbatim>\<open>number\<close> type of TypeScript. Its values are
  modelled as the not-a-number value, the two infinities and the finite values; a finite
  value is a real number. The operations below follow the IEEE 754 rules for the special
  values (what is NaN, what is infinite, how both propagate) and are the exact real
  operations on finite values: rounding, overflow and underflow are not part of these
  operations, and the two zeros are one value \<open>Fin 0\<close>. The only divisors of the program
  that can be zero are sums of squares and logarithms of 1, which are never the negative
  zero, so a finite non-zero value divided by zero has the sign of the dividend.

  Where the rounding of a loop counter decides whether a loop returns, the loop is given
  a second time with every result rounded to the nearest double (\<open>liLoop_double\<close>).
\<close>

datatype number = NaN | NInf | Fin real | PInf

text \<open>Unary minus.\<close>

fun num_neg :: "number \<Rightarrow> number" where
  "num_neg NaN = NaN"
| "num_neg NInf = PInf"
| "num_neg PInf = NInf"
| "num_neg (Fin a) = Fin (- a)"

text \<open>\<^verbatim>\<open>a + b\<close>: the sum of opposite infinities is NaN.\<close>

fun num_add :: "number \<Rightarrow> number \<Rightarrow> number" where
  "num_add NaN b = NaN"
| "num_add a NaN = NaN"
| "num_add PInf NInf = NaN"
| "num_add NInf PInf = NaN"
| "num_add PInf b = PInf"
| "num_add a PInf = PInf"
| "num_add NInf b = NInf"
| "num_add a NInf = NInf"
| "num_add (Fin a) (Fin b) = Fin (a + b)"

text \<open>\<^verbatim>\<open>a - b\<close>: the difference of equal infinities is NaN.\<close>

fun num_sub :: "number \<Rightarrow> number \<Rightarrow> number" where
  "num_sub NaN b = NaN"
| "num_sub a NaN = NaN"
| "num_sub PInf PInf = NaN"
| "num_sub NInf NInf = NaN"
| "num_sub PInf b = PInf"
| "num_sub a PInf = NInf"
| "num_sub NInf b = NInf"
| "num_sub a NInf = PInf"
| "num_sub (Fin a) (Fin b) = Fin (a - b)"

text \<open>The infinity with the sign of a non-zero real.\<close>

definition signed_inf :: "real \<Rightarrow> number" where
  "signed_inf a = (if 0 < a then PInf else NInf)"

text \<open>\<^verbatim>\<open>a * b\<close>: zero times an infinity is NaN.\<close>

fun num_mul :: "number \<Rightarrow> number \<Rightarrow> number" where
  "num_mul NaN b = NaN"
| "num_mul a NaN = NaN"
| "num_mul PInf PInf = PInf"
| "num_mul PInf NInf = NInf"
| "num_mul NInf PInf = NInf"
| "num_mul NInf NInf = PInf"
| "num_mul PInf (Fin b) = (if b = 0 then NaN else signed_inf b)"
| "num_mul NInf (Fin b) = (if b = 0 then NaN else signed_inf (- b))"
| "num_mul (Fin a) PInf = (if a = 0 then NaN else signed_inf a)"
| "num_mul (Fin a) NInf = (if a = 0 then NaN else signed_inf (- a))"
| "num_mul (Fin a) (Fin b) = Fin (a * b)"

text \<open>
  \<^verbatim>\<open>a / b\<close>: zero by zero and infinity by infinity are NaN, a non-zero finite value
  by zero is an infinity, a finite value by an infinity is zero.
\<close>

fun num_div :: "number \<Rightarrow> number \<Rightarrow> number" where
  "num_div NaN b = NaN"
| "num_div a NaN = NaN"
| "num_div PInf PInf = NaN"
| "num_div PInf NInf = NaN"
| "num_div NInf PInf = NaN"
| "num_div NInf NInf = NaN"
| "num_div PInf (Fin b) = (if 0 \<le> b then PInf else NInf)"
| "num_div NInf (Fin b) = (if 0 \<le> b then NInf else PInf)"
| "num_div (Fin a) PInf = Fin 0"
| "num_div (Fin a) NInf = Fin 0"
| "num_div (Fin a) (Fin b) =
     (if b = 0 then (if a = 0 then NaN else signed_inf a) else Fin (a / b))"

text \<open>\<^verbatim>\<open>a <= b\<close> and \<^verbatim>\<open>a < b\<close>: false as soon as one side is NaN.\<close>

fun num_le :: "number \<Rightarrow> number \<Rightarrow> bool" where
  "num_le NaN b = False"
| "num_le a NaN = False"
| "num_le NInf b = True"
| "num_le a PInf = True"
| "num_le PInf b = False"
| "num_le a NInf = False"
| "num_le (Fin a) (Fin b) = (a \<le> b)"

fun num_less :: "number \<Rightarrow> number \<Rightarrow> bool" where
  "num_less NaN b = False"
| "num_less a NaN = False"
| "num_less PInf b = False"
| "num_less a NInf = False"
| "num_less NInf b = True"
| "num_less a PInf = True"
| "num_less (Fin a) (Fin b) = (a < b)"

text \<open>\<^verbatim>\<open>a > b\<close> is \<^verbatim>\<open>b < a\<close>.\<close>

definition num_greater :: "number \<Rightarrow> number \<Rightarrow> bool" where
  "num_greater a b = num_less b a"

text \<open>
  The functions of \<^verbatim>\<open>Math\<close>. On finite arguments inside their domain they are the
  real functions; outside they return what ECMAScript prescribes.
\<close>

fun Math_log :: "number \<Rightarrow> number" where
  "Math_log NaN = NaN"
| "Math_log NInf = NaN"
| "Math_log PInf = PInf"
| "Math_log (Fin a) = (if a < 0 then NaN else if a = 0 then NInf else Fin (ln a))"

fun Math_exp :: "number \<Rightarrow> number" where
  "Math_exp NaN = NaN"
| "Math_exp NInf = Fin 0"
| "Math_exp PInf = PInf"
| "Math_exp (Fin a) = Fin (exp a)"

fun Math_cos :: "number \<Rightarrow> number" where
  "Math_cos (Fin a) = Fin (cos a)"
| "Math_cos a = NaN"

fun Math_sin :: "number \<Rightarrow> number" where
  "Math_sin (Fin a) = Fin (sin a)"
| "Math_sin a = NaN"

fun Math_sqrt :: "number \<Rightarrow> number" where
  "Math_sqrt NaN = NaN"
| "Math_sqrt NInf = NaN"
| "Math_sqrt PInf = PInf"
| "Math_sqrt (Fin a) = (if a < 0 then NaN else Fin (sqrt a))"

fun Math_abs :: "number \<Rightarrow> number" where
  "Math_abs NaN = NaN"
| "Math_abs NInf = PInf"
| "Math_abs PInf = PInf"
| "Math_abs (Fin a) = Fin \<bar>a\<bar>"

text \<open>An integer loop counter as a number.\<close>

definition to_number :: "nat \<Rightarrow> number" where
  "to_number n = Fin (real n)"

section \<open>The class ComplexNumber\<close>

record ComplexNumber =
  re :: number
  im :: number

definition add :: "ComplexNumber \<Rightarrow> ComplexNumber \<Rightarrow> ComplexNumber" where
  "add this c = \<lparr> re = num_add (re this) (re c), im = num_add (im this) (im c) \<rparr>"

definition sub :: "ComplexNumber \<Rightarrow> ComplexNumber \<Rightarrow> ComplexNumber" where
  "sub this c = \<lparr> re = num_sub (re this) (re c), im = num_sub (im this) (im c) \<rparr>"

definition multiply :: "ComplexNumber \<Rightarrow> ComplexNumber \<Rightarrow> ComplexNumber" where
  "multiply this c =
     \<lparr> re = num_sub (num_mul (re this) (re c)) (num_mul (im this) (im c)),
       im = num_add (num_mul (re this) (im c)) (num_mul (im this) (re c)) \<rparr>"

text \<open>\<^verbatim>\<open>static pow(base, exponent)\<close>: \<open>base\<close> to a complex power, as \<open>exp (exponent * ln base)\<close>.\<close>

definition pow :: "number \<Rightarrow> ComplexNumber \<Rightarrow> ComplexNumber" where
  "pow base exponent =
     (let lnBase = Math_log base;
          a = num_mul (re exponent) lnBase;
          b = num_mul (im exponent) lnBase;
          expA = Math_exp a
      in \<lparr> re = num_mul expA (Math_cos b), im = num_mul expA (Math_sin b) \<rparr>)"

text \<open>\<^verbatim>\<open>inv()\<close>: the reciprocal. There is no test of the divisor.\<close>

definition inv_cn :: "ComplexNumber \<Rightarrow> ComplexNumber" where
  "inv_cn this =
     (let denom = num_add (num_mul (re this) (re this)) (num_mul (im this) (im this))
      in \<lparr> re = num_div (re this) denom, im = num_div (num_neg (im this)) denom \<rparr>)"

section \<open>The function zeta\<close>

text \<open>
  The loop \<^verbatim>\<open>for (let n = 1; n <= terms; n++)\<close> of \<^verbatim>\<open>zeta\<close>, from the counter
  \<open>n\<close> and the accumulator \<open>etaSum\<close>. The number of terms is a natural number.
\<close>

function zeta_loop :: "ComplexNumber \<Rightarrow> nat \<Rightarrow> nat \<Rightarrow> ComplexNumber \<Rightarrow> ComplexNumber" where
  "zeta_loop s terms n etaSum =
     (if n \<le> terms then
        (let n_s = pow (to_number n) s;
             term = inv_cn n_s
         in if (n - 1) mod 2 = 1
            then zeta_loop s terms (n + 1) (sub etaSum term)
            else zeta_loop s terms (n + 1) (add etaSum term))
      else etaSum)"
  by pat_completeness auto
termination
  by (relation "measure (\<lambda>(s, terms, n, etaSum). Suc terms - n)") auto

definition zeta :: "ComplexNumber \<Rightarrow> nat \<Rightarrow> ComplexNumber" where
  "zeta s terms =
     (let etaSum = zeta_loop s terms 1 \<lparr> re = Fin 0, im = Fin 0 \<rparr>;
          oneMinusS = \<lparr> re = num_sub (Fin 1) (re s), im = num_neg (im s) \<rparr>;
          twoPow = pow (Fin 2) oneMinusS;
          denominator = sub \<lparr> re = Fin 1, im = Fin 0 \<rparr> twoPow
      in multiply etaSum (inv_cn denominator))"

text \<open>
  The partial sum of the eta series as the specification words it: the terms
  \<open>inverse (powRealBase n s)\<close> for \<open>n\<close> from 1 to \<open>terms\<close>, in increasing order,
  from \<open>(0, 0)\<close>, added when \<open>n\<close> is odd and subtracted when \<open>n\<close> is even.
\<close>

definition eta_spec :: "ComplexNumber \<Rightarrow> nat \<Rightarrow> ComplexNumber" where
  "eta_spec s terms =
     foldl (\<lambda>acc n. if odd n then add acc (inv_cn (pow (to_number n) s))
                     else sub acc (inv_cn (pow (to_number n) s)))
           \<lparr> re = Fin 0, im = Fin 0 \<rparr> [1 ..< Suc terms]"

text \<open>
  The partial sums of the alternating series of the inverse squares,
  \<open>1 - 1/4 + 1/9 - \<dots>\<close>, as real numbers: what the loop of \<open>zeta\<close> accumulates at
  \<open>s = (2, 0)\<close>.
\<close>

fun eta2 :: "nat \<Rightarrow> real" where
  "eta2 0 = 0"
| "eta2 (Suc n) = (if odd (Suc n) then eta2 n + 1 / (real (Suc n))\<^sup>2
                   else eta2 n - 1 / (real (Suc n))\<^sup>2)"

text \<open>The complex conjugate, in which the conjugate symmetry of \<open>zeta\<close> is stated.\<close>

definition conjugate :: "ComplexNumber \<Rightarrow> ComplexNumber" where
  "conjugate c = \<lparr> re = re c, im = num_neg (im c) \<rparr>"

section \<open>The prime numbers of initPrimes\<close>

text \<open>
  \<^verbatim>\<open>isPrime\<close> is called on the integers \<open>0 .. maxN\<close>; its argument and its loop
  counter are natural numbers, and the loop test \<^verbatim>\<open>i <= Math.sqrt(num)\<close> compares
  them as numbers. On natural numbers \<^verbatim>\<open>num % i\<close> is \<open>num mod i\<close>, and \<open>i\<close> is at
  least 2.
\<close>

function isPrime_loop :: "nat \<Rightarrow> nat \<Rightarrow> bool" where
  "isPrime_loop num i =
     (if num_le (to_number i) (Math_sqrt (to_number num))
      then (if num mod i = 0 then False else isPrime_loop num (i + 1))
      else True)"
  by pat_completeness auto
termination
proof (relation "measure (\<lambda>(num, i). Suc num - i)")
  show "wf (measure (\<lambda>(num, i). Suc num - i))" by simp
next
  fix num i :: nat
  assume "num_le (to_number i) (Math_sqrt (to_number num))"
  then have "real i \<le> sqrt (real num)"
    by (simp add: to_number_def)
  then have "(real i)\<^sup>2 \<le> real num"
    by (metis real_sqrt_le_iff real_sqrt_abs abs_of_nat)
  then have "i * i \<le> num"
    by (metis of_nat_le_iff of_nat_mult power2_eq_square)
  then have "i \<le> num"
    by (cases "i = 0") (auto dest: dual_order.trans [OF _ le_square])
  then show "((num, i + 1), (num, i)) \<in> measure (\<lambda>(num, i). Suc num - i)"
    by simp
qed

definition isPrime :: "nat \<Rightarrow> bool" where
  "isPrime num = (if num < 2 then False else isPrime_loop num 2)"

text \<open>The loop \<^verbatim>\<open>for (let i = 0; i <= maxN; i++) if (isPrime(i)) primes.push(i)\<close>.\<close>

definition primes :: "nat \<Rightarrow> nat list" where
  "primes maxN = filter isPrime [0 ..< Suc maxN]"

text \<open>Primality as number theory defines it, against which \<open>isPrime\<close> is checked.\<close>

definition is_prime_spec :: "nat \<Rightarrow> bool" where
  "is_prime_spec n = (1 < n \<and> (\<forall>d. d dvd n \<longrightarrow> d = 1 \<or> d = n))"

section \<open>The step points of the prime counting function\<close>

text \<open>A \<^verbatim>\<open>THREE.Vector3\<close>, with its fields \<^verbatim>\<open>x\<close>, \<^verbatim>\<open>y\<close> and \<^verbatim>\<open>z\<close>.\<close>

datatype Vector3 = Vector3 (vx: number) (vy: number) (vz: number)

text \<open>
  The loop over \<^verbatim>\<open>primes\<close> that builds \<^verbatim>\<open>stepPoints\<close>, from the primes still to
  visit, \<^verbatim>\<open>count\<close> and the points pushed so far. Reading the \<^verbatim>\<open>x\<close> of the last
  point of an empty array throws a \<^verbatim>\<open>TypeError\<close>; that is the result \<open>None\<close>.
\<close>

fun stepLoop :: "nat list \<Rightarrow> nat \<Rightarrow> Vector3 list \<Rightarrow> (nat \<times> Vector3 list) option" where
  "stepLoop [] count stepPoints = Some (count, stepPoints)"
| "stepLoop (p # rest) count stepPoints =
     (if stepPoints = [] then None
      else
        (let lastX = vx (last stepPoints);
             stepPoints1 =
               (if num_greater (to_number p) lastX
                then stepPoints @ [Vector3 (to_number p) (to_number count) (Fin 0)]
                else stepPoints);
             count1 = count + 1
         in stepLoop rest count1
              (stepPoints1 @ [Vector3 (to_number p) (to_number count1) (Fin 0)])))"

definition stepPoints :: "nat list \<Rightarrow> nat \<Rightarrow> Vector3 list option" where
  "stepPoints ps maxN =
     (case stepLoop ps 0 [Vector3 (Fin 0) (Fin 0) (Fin 0)] of
        None \<Rightarrow> None
      | Some (count, pts) \<Rightarrow> Some (pts @ [Vector3 (to_number maxN) (to_number count) (Fin 0)]))"

text \<open>A step point with integer coordinates, in which the points pushed are described.\<close>

definition emb :: "nat \<times> nat \<Rightarrow> Vector3" where
  "emb q = Vector3 (to_number (fst q)) (to_number (snd q)) (Fin 0)"

section \<open>The logarithmic integral\<close>

text \<open>
  The loop \<^verbatim>\<open>for (let x = 2; x <= maxN; x += dt)\<close> that builds \<^verbatim>\<open>liPoints\<close>, with
  the step, the bound and the start as parameters, in exact arithmetic. With a step that
  is not positive the loop does not end; not returning is the value \<open>None\<close>.
\<close>

partial_function (option) liLoop ::
  "number \<Rightarrow> number \<Rightarrow> number \<Rightarrow> number \<Rightarrow> Vector3 list \<Rightarrow> Vector3 list option" where
  "liLoop dt maxN x integral liPoints =
     (if num_le x maxN then
        (let mid = num_add x (num_div dt (Fin 2));
             val = num_div (Fin 1) (Math_log mid);
             integral1 = num_add integral (num_mul val dt)
         in liLoop dt maxN (num_add x dt) integral1
              (liPoints @ [Vector3 (num_add x dt) integral1 (Fin 0)]))
      else Some liPoints)"

definition logarithmicIntegral :: "number \<Rightarrow> number \<Rightarrow> number \<Rightarrow> Vector3 list option" where
  "logarithmicIntegral from to stepSize =
     liLoop stepSize to from (Fin 0) [Vector3 from (Fin 0) (Fin 0)]"






text \<open>
  The program's curve: from 2 to \<^verbatim>\<open>maxN = 100\<close> in steps of \<^verbatim>\<open>dt = 0.1\<close>, in exact
  arithmetic. With these parameters the counter advances at every step in doubles too,
  and the run takes the same 981 steps.
\<close>

definition liPoints :: "Vector3 list option" where
  "liPoints = logarithmicIntegral (Fin 2) (Fin 100) (Fin 0.1)"

section \<open>The waves of the explicit formula and the Riemann sum\<close>

definition gammas :: "number list" where
  "gammas = [Fin 14.13, Fin 21.02, Fin 25.01, Fin 30.42, Fin 32.93,
             Fin 37.58, Fin 40.91, Fin 43.32, Fin 48.00, Fin 49.77]"

definition allGammas :: "number list" where
  "allGammas = gammas @ map num_neg gammas"

text \<open>The ordinate \<^verbatim>\<open>waveY\<close> of one wave point, for one \<^verbatim>\<open>gamma\<close> of \<^verbatim>\<open>allGammas\<close>.\<close>

definition waveY :: "number \<Rightarrow> number \<Rightarrow> number" where
  "waveY x gamma =
     (let amp = num_div (Math_sqrt x) (Math_abs gamma);
          phase = num_mul gamma (Math_log x)
      in num_mul (num_neg amp) (Math_sin phase))"

text \<open>
  The term of one pair of zeros in the Riemann sum, the \<^verbatim>\<open>waveY\<close> of the loop over
  \<^verbatim>\<open>gammas\<close>: \<^verbatim>\<open>-2 * amp * Math.sin(phase)\<close>.
\<close>

definition pairWaveY :: "number \<Rightarrow> number \<Rightarrow> number" where
  "pairWaveY x gamma =
     (let amp = num_div (Math_sqrt x) gamma;
          phase = num_mul gamma (Math_log x)
      in num_mul (num_mul (Fin (- 2)) amp) (Math_sin phase))"

definition correction :: "number list \<Rightarrow> number \<Rightarrow> number" where
  "correction gs x = foldl (\<lambda>correction gamma. num_add correction (pairWaveY x gamma)) (Fin 0) gs"

text \<open>
  The inner loop \<^verbatim>\<open>for (let t = 2; t < x; t += subDt)\<close> of the Riemann sum, in
  exact arithmetic. At \<open>x = 2.2\<close>, where it is evaluated below, the program's counter
  takes the doubles nearest to 2, 2.1 and 2.2 and stops after the same two steps.
\<close>

partial_function (option) liVal_loop ::
  "number \<Rightarrow> number \<Rightarrow> number \<Rightarrow> number \<Rightarrow> number option" where
  "liVal_loop subDt x t liVal =
     (if num_less t x
      then liVal_loop subDt x (num_add t subDt)
             (num_add liVal (num_mul (num_div (Fin 1) (Math_log t)) subDt))
      else Some liVal)"

text \<open>
  The body of the outer loop \<^verbatim>\<open>for (let x = 2; x <= maxN; x += 0.2)\<close>: \<^verbatim>\<open>totalY\<close>
  at the sample point \<open>x\<close>.
\<close>

definition totalY :: "number list \<Rightarrow> number \<Rightarrow> number option" where
  "totalY gs x =
     Option.bind (liVal_loop (Fin 0.1) x (Fin 2) (Fin 0))
       (\<lambda>liVal. Some (num_add liVal (correction gs x)))"

text \<open>The real values of \<open>gammas\<close>, and the sum over them of the terms of the pairs of zeros.\<close>

definition gamma_values :: "real list" where
  "gamma_values = [14.13, 21.02, 25.01, 30.42, 32.93, 37.58, 40.91, 43.32, 48.00, 49.77]"

definition pair_sum :: "real \<Rightarrow> real" where
  "pair_sum x = (\<Sum>g\<leftarrow>gamma_values. - 2 * (sqrt x / g) * sin (g * ln x))"

section \<open>Properties of zeta\<close>

declare zeta_loop.simps [simp del]

lemma zeta_loop_foldl:
  "n \<ge> 1 \<Longrightarrow> zeta_loop s terms n acc =
     foldl (\<lambda>acc n. if odd n then add acc (inv_cn (pow (to_number n) s))
                     else sub acc (inv_cn (pow (to_number n) s)))
           acc [n ..< Suc terms]"
proof (induction s terms n acc rule: zeta_loop.induct)
  case (1 s terms n etaSum)
  show ?case
  proof (cases "n \<le> terms")
    case False
    then show ?thesis by (subst zeta_loop.simps) simp
  next
    case True
    then have range: "[n ..< Suc terms] = n # [Suc n ..< Suc terms]"
      by (simp add: upt_conv_Cons)
    have parity: "((n - 1) mod 2 = 1) = even n"
      using \<open>n \<ge> 1\<close> by (cases n) (auto simp: mod_2_eq_odd)
    show ?thesis
    proof (cases "even n")
      case even: True
      with True parity "1.IH"(1)[OF True refl refl] show ?thesis
        by (subst zeta_loop.simps) (simp add: range Let_def del: upt_Suc)
    next
      case odd: False
      with True parity "1.IH"(2)[OF True refl refl] show ?thesis
        by (subst zeta_loop.simps) (simp add: range Let_def del: upt_Suc)
    qed
  qed
qed

lemma zeta_eta_spec:
  "zeta s terms =
     multiply (eta_spec s terms)
       (inv_cn (sub \<lparr> re = Fin 1, im = Fin 0 \<rparr>
                 (pow (Fin 2) \<lparr> re = num_sub (Fin 1) (re s), im = num_neg (im s) \<rparr>)))"
  by (simp add: zeta_def eta_spec_def zeta_loop_foldl Let_def)

text \<open>
  C1. For every complex \<open>s\<close> and every number of terms, \<open>zeta s terms\<close> is the alternating
  partial sum of the eta series (the terms \<open>inverse (pow n s)\<close>, added for odd \<open>n\<close>,
  subtracted for even \<open>n\<close>, accumulated in increasing order of \<open>n\<close> from \<open>(0, 0)\<close>)
  multiplied by the inverse of the denominator \<open>(1, 0) - pow 2 (1 - s.re, - s.im)\<close>.
\<close>

theorem zeta_is_eta_sum_over_denominator:
  "zeta s terms =
     multiply (eta_spec s terms)
       (inv_cn (sub \<lparr> re = Fin 1, im = Fin 0 \<rparr>
                 (pow (Fin 2) \<lparr> re = num_sub (Fin 1) (re s), im = num_neg (im s) \<rparr>)))"
  by (rule zeta_eta_spec)

lemma num_mul_NaN_right [simp]: "num_mul a NaN = NaN"
  by (cases a) simp_all

lemma num_add_NaN_right [simp]: "num_add a NaN = NaN"
  by (cases a) simp_all

lemma num_sub_NaN_right [simp]: "num_sub a NaN = NaN"
  by (cases a) simp_all

lemma num_div_NaN_right [simp]: "num_div a NaN = NaN"
  by (cases a) simp_all

lemma num_neg_neg [simp]: "num_neg (num_neg a) = a"
  by (cases a) simp_all

lemma num_mul_neg_left: "num_mul (num_neg a) b = num_neg (num_mul a b)"
  by (cases a; cases b) (auto simp: signed_inf_def)

lemma num_mul_neg_right: "num_mul a (num_neg b) = num_neg (num_mul a b)"
  by (cases a; cases b) (auto simp: signed_inf_def)

lemma num_div_neg_left: "num_div (num_neg a) b = num_neg (num_div a b)"
  by (cases a; cases b) (auto simp: signed_inf_def)

lemma num_add_neg_neg: "num_add (num_neg a) (num_neg b) = num_neg (num_add a b)"
  by (cases a; cases b) auto

lemma num_sub_neg_neg: "num_sub (num_neg a) (num_neg b) = num_neg (num_sub a b)"
  by (cases a; cases b) auto

lemma Math_cos_neg: "Math_cos (num_neg a) = Math_cos a"
  by (cases a) simp_all

lemma Math_sin_neg: "Math_sin (num_neg a) = num_neg (Math_sin a)"
  by (cases a) simp_all

lemma pow_conjugate: "pow b (conjugate s) = conjugate (pow b s)"
  by (simp add: pow_def conjugate_def Let_def num_mul_neg_left num_mul_neg_right
      Math_cos_neg Math_sin_neg)

lemma inv_cn_conjugate: "inv_cn (conjugate c) = conjugate (inv_cn c)"
  by (simp add: inv_cn_def conjugate_def Let_def num_mul_neg_left num_mul_neg_right
      num_div_neg_left)

lemma add_conjugate: "add (conjugate a) (conjugate b) = conjugate (add a b)"
  by (simp add: add_def conjugate_def num_add_neg_neg)

lemma sub_conjugate: "sub (conjugate a) (conjugate b) = conjugate (sub a b)"
  by (simp add: sub_def conjugate_def num_sub_neg_neg)

lemma multiply_conjugate: "multiply (conjugate a) (conjugate b) = conjugate (multiply a b)"
  by (simp add: multiply_def conjugate_def num_mul_neg_left num_mul_neg_right
      num_add_neg_neg)

lemma zeta_loop_conjugate:
  "zeta_loop (conjugate s) terms n (conjugate acc) = conjugate (zeta_loop s terms n acc)"
proof (induction s terms n acc rule: zeta_loop.induct)
  case (1 s terms n etaSum)
  show ?case
  proof (cases "n \<le> terms")
    case False
    then show ?thesis
      by (simp add: zeta_loop.simps [of _ terms n])
  next
    case True
    show ?thesis
    proof (cases "(n - 1) mod 2 = 1")
      case sub: True
      from "1.IH"(1)[OF True refl refl sub] True sub show ?thesis
        by (simp add: zeta_loop.simps [of _ terms n] Let_def pow_conjugate inv_cn_conjugate sub_conjugate)
    next
      case add: False
      from "1.IH"(2)[OF True refl refl add] True add show ?thesis
        by (simp add: zeta_loop.simps [of _ terms n] Let_def pow_conjugate inv_cn_conjugate add_conjugate)
    qed
  qed
qed

lemma zeta_conjugate: "zeta (conjugate s) terms = conjugate (zeta s terms)"
proof -
  have zero: "\<lparr> re = Fin 0, im = Fin 0 \<rparr> = conjugate \<lparr> re = Fin 0, im = Fin 0 \<rparr>"
    by (simp add: conjugate_def)
  have one: "\<lparr> re = Fin 1, im = Fin 0 \<rparr> = conjugate \<lparr> re = Fin 1, im = Fin 0 \<rparr>"
    by (simp add: conjugate_def)
  have oms: "\<lparr> re = num_sub (Fin 1) (re (conjugate s)), im = num_neg (im (conjugate s)) \<rparr>
      = conjugate \<lparr> re = num_sub (Fin 1) (re s), im = num_neg (im s) \<rparr>"
    by (simp add: conjugate_def)
  have loop: "zeta_loop (conjugate s) terms 1 \<lparr> re = Fin 0, im = Fin 0 \<rparr>
      = conjugate (zeta_loop s terms 1 \<lparr> re = Fin 0, im = Fin 0 \<rparr>)"
    by (subst zero) (rule zeta_loop_conjugate)
  have den: "sub \<lparr> re = Fin 1, im = Fin 0 \<rparr> (pow (Fin 2) \<lparr> re = num_sub (Fin 1) (re (conjugate s)), im = num_neg (im (conjugate s)) \<rparr>)
     = conjugate (sub \<lparr> re = Fin 1, im = Fin 0 \<rparr> (pow (Fin 2) \<lparr> re = num_sub (Fin 1) (re s), im = num_neg (im s) \<rparr>))"
    unfolding oms pow_conjugate by (subst one) (rule sub_conjugate)
  show ?thesis
    unfolding zeta_def Let_def loop den inv_cn_conjugate multiply_conjugate ..
qed

text \<open>
  C10. For every complex \<open>s\<close> and every number of terms, \<open>zeta\<close> at the complex conjugate of
  \<open>s\<close> is the complex conjugate of \<open>zeta\<close> at \<open>s\<close>:
  \<open>zeta (s.re, - s.im) terms = (z.re, - z.im)\<close> where \<open>z = zeta (s.re, s.im) terms\<close>.
\<close>

theorem zeta_conjugate_symmetry:
  "zeta \<lparr> re = re s, im = num_neg (im s) \<rparr> terms =
     \<lparr> re = re (zeta s terms), im = num_neg (im (zeta s terms)) \<rparr>"
  using zeta_conjugate [of s terms] by (simp add: conjugate_def)

text \<open>
  C6. For every complex \<open>a\<close>, the inverse of \<open>a\<close> is the pair \<open>(a.re / d, - a.im / d)\<close>
  with \<open>d = a.re * a.re + a.im * a.im\<close>, whatever \<open>a\<close> is; at the zero complex value
  both components of the result are NaN.
\<close>

theorem inv_cn_unguarded:
  "inv_cn a =
     \<lparr> re = num_div (re a) (num_add (num_mul (re a) (re a)) (num_mul (im a) (im a))),
       im = num_div (num_neg (im a)) (num_add (num_mul (re a) (re a)) (num_mul (im a) (im a))) \<rparr>
   \<and> inv_cn \<lparr> re = Fin 0, im = Fin 0 \<rparr> = \<lparr> re = NaN, im = NaN \<rparr>"
  by (simp add: inv_cn_def Let_def)

lemma pow_2_zero: "pow (Fin 2) \<lparr> re = Fin 0, im = Fin 0 \<rparr> = \<lparr> re = Fin 1, im = Fin 0 \<rparr>"
  by (simp add: pow_def Let_def)

lemma multiply_NaN: "multiply x \<lparr> re = NaN, im = NaN \<rparr> = \<lparr> re = NaN, im = NaN \<rparr>"
  by (simp add: multiply_def)

text \<open>
  C5. At \<open>s = (1, 0)\<close> the denominator \<open>1 - 2^(1 - s)\<close> is the zero complex value, and for
  every number of terms the result of \<open>zeta\<close> is a complex number whose two components
  are NaN: the degenerate value is returned as it is, in the result type of every other
  call.
\<close>

theorem zeta_at_one_is_NaN:
  "sub \<lparr> re = Fin 1, im = Fin 0 \<rparr>
       (pow (Fin 2) \<lparr> re = num_sub (Fin 1) (Fin 1), im = num_neg (Fin 0) \<rparr>)
     = \<lparr> re = Fin 0, im = Fin 0 \<rparr>
   \<and> zeta \<lparr> re = Fin 1, im = Fin 0 \<rparr> terms = \<lparr> re = NaN, im = NaN \<rparr>"
  by (simp add: zeta_def Let_def pow_2_zero sub_def inv_cn_def multiply_NaN)

section \<open>Properties of isPrime\<close>

declare isPrime_loop.simps [simp del]

lemma sqrt_test: "num_le (to_number i) (Math_sqrt (to_number num)) = (i * i \<le> num)"
proof -
  have "(real i \<le> sqrt (real num)) = ((real i)\<^sup>2 \<le> real num)"
    by (metis real_sqrt_le_iff real_sqrt_abs abs_of_nat)
  also have "\<dots> = (i * i \<le> num)"
    by (metis of_nat_le_iff of_nat_mult power2_eq_square)
  finally show ?thesis by (simp add: to_number_def)
qed

lemma isPrime_loop_code [code]:
  "isPrime_loop num i =
     (if i * i \<le> num then (if num mod i = 0 then False else isPrime_loop num (i + 1)) else True)"
  by (subst isPrime_loop.simps) (simp add: sqrt_test)

lemma isPrime_loop_iff:
  "isPrime_loop num i = (\<forall>j. i \<le> j \<and> j * j \<le> num \<longrightarrow> num mod j \<noteq> 0)"
proof (induction num i rule: isPrime_loop.induct)
  case (1 num i)
  show ?case
  proof (cases "i * i \<le> num")
    case False
    have "\<not> j * j \<le> num" if "i \<le> j" for j
    proof -
      from that have "i * i \<le> j * j" by (simp add: mult_le_mono)
      with False show ?thesis by linarith
    qed
    with False show ?thesis
      by (subst isPrime_loop_code) auto
  next
    case True
    show ?thesis
    proof (cases "num mod i = 0")
      case zero: True
      with True show ?thesis
        by (subst isPrime_loop_code) auto
    next
      case nz: False
      have test: "num_le (to_number i) (Math_sqrt (to_number num))"
        using True by (simp add: sqrt_test)
      have "isPrime_loop num i = isPrime_loop num (i + 1)"
        using True nz by (subst isPrime_loop_code) simp
      also have "\<dots> = (\<forall>j. i + 1 \<le> j \<and> j * j \<le> num \<longrightarrow> num mod j \<noteq> 0)"
        using "1.IH" [OF test nz] .
      also have "\<dots> = (\<forall>j. i \<le> j \<and> j * j \<le> num \<longrightarrow> num mod j \<noteq> 0)"
        using nz by (metis Suc_eq_plus1 Suc_leI le_neq_implies_less Suc_leD)
      finally show ?thesis .
    qed
  qed
qed

lemma isPrime_trial_division:
  "isPrime n = (2 \<le> n \<and> (\<forall>j. 2 \<le> j \<and> j * j \<le> n \<longrightarrow> n mod j \<noteq> 0))"
  by (auto simp: isPrime_def isPrime_loop_iff)

lemma isPrime_is_prime_spec: "isPrime n = is_prime_spec n"
proof
  assume "isPrime n"
  then have n2: "2 \<le> n" and nodiv: "\<And>j. 2 \<le> j \<Longrightarrow> j * j \<le> n \<Longrightarrow> n mod j \<noteq> 0"
    by (auto simp: isPrime_trial_division)
  have "d = 1 \<or> d = n" if "d dvd n" for d
  proof (rule ccontr)
    assume neg: "\<not> (d = 1 \<or> d = n)"
    from that obtain e where e: "n = d * e" by (auto simp: dvd_def)
    with n2 neg have d2: "2 \<le> d" and e2: "2 \<le> e"
      by (cases d; cases e; auto)+
    show False
    proof (cases "d \<le> e")
      case True
      then have "d * d \<le> n" using e by simp
      with nodiv [OF d2] e show False by simp
    next
      case False
      then have "e * e \<le> n" using e by (simp add: mult_le_mono1)
      with nodiv [OF e2] e show False by simp
    qed
  qed
  with n2 show "is_prime_spec n" by (simp add: is_prime_spec_def)
next
  assume p: "is_prime_spec n"
  then have n2: "2 \<le> n" by (simp add: is_prime_spec_def)
  have "n mod j \<noteq> 0" if "2 \<le> j" "j * j \<le> n" for j
  proof
    assume "n mod j = 0"
    then have "j dvd n" by auto
    with p have "j = 1 \<or> j = n" by (simp add: is_prime_spec_def)
    with that n2 show False
      by (cases "j = n") auto
  qed
  with n2 show "isPrime n" by (auto simp: isPrime_trial_division)
qed

lemma primes_30: "primes 30 = [2, 3, 5, 7, 11, 13, 17, 19, 23, 29]"
  by code_simp

text \<open>
  C7. For every \<open>n\<close> from 0 to 1000, \<open>isPrime n\<close> is true exactly when \<open>n\<close> is prime: it
  is false below 2, and from 2 on it is true exactly when no integer from 2 up to the
  square root of \<open>n\<close> divides \<open>n\<close>. In particular \<open>isPrime 2\<close> and \<open>isPrime 97\<close> are
  true and \<open>isPrime 1\<close> is false.
\<close>

theorem isPrime_correct:
  "n \<le> 1000 \<Longrightarrow>
     isPrime n = is_prime_spec n
     \<and> (n < 2 \<longrightarrow> \<not> isPrime n)
     \<and> isPrime n = (2 \<le> n \<and> (\<forall>j. 2 \<le> j \<and> real j \<le> sqrt (real n) \<longrightarrow> n mod j \<noteq> 0))
     \<and> isPrime 2 \<and> \<not> isPrime 1 \<and> isPrime 97"
proof -
  have c: "isPrime 2 \<and> \<not> isPrime 1 \<and> isPrime 97" by code_simp
  have t: "(real j \<le> sqrt (real n)) = (j * j \<le> n)" for j
    using sqrt_test [of j n] by (simp add: to_number_def)
  show ?thesis
    using c isPrime_trial_division [of n] by (simp add: isPrime_is_prime_spec [symmetric] t)
qed

theorem isPrime_correct_witness:
  "(97::nat) \<le> 1000 \<and> isPrime 97 \<and> isPrime 2 \<and> \<not> isPrime 1"
proof -
  have n: "(97::nat) \<le> 1000" by simp
  from isPrime_correct [OF n] n show ?thesis by blast
qed

section \<open>Properties of the step points\<close>

lemma stepLoop_invariant:
  "sorted ps \<Longrightarrow> \<forall>p\<in>set ps. l \<le> p \<Longrightarrow>
   \<exists>rs. stepLoop ps c (map emb (qs @ [(l, c)])) = Some (c + length ps, map emb (qs @ (l, c) # rs))
      \<and> sorted (map fst ((l, c) # rs)) \<and> sorted (map snd ((l, c) # rs))
      \<and> last ((l, c) # rs) = (last (l # ps), c + length ps)"
proof (induction ps arbitrary: l c qs)
  case Nil
  show ?case by (rule exI [of _ "[]"]) simp
next
  case (Cons p rest)
  from Cons.prems have lp: "l \<le> p" and srt: "sorted rest" and low: "\<forall>q\<in>set rest. p \<le> q"
    by auto
  show ?case
  proof (cases "l < p")
    case True
    from Cons.IH [OF srt low, of "Suc c" "qs @ [(l, c), (p, c)]"]
    obtain rs where rs:
      "stepLoop rest (Suc c) (map emb ((qs @ [(l, c), (p, c)]) @ [(p, Suc c)]))
         = Some (Suc c + length rest, map emb ((qs @ [(l, c), (p, c)]) @ (p, Suc c) # rs))"
      "sorted (map fst ((p, Suc c) # rs))" "sorted (map snd ((p, Suc c) # rs))"
      "last ((p, Suc c) # rs) = (last (p # rest), Suc c + length rest)"
      by blast
    show ?thesis
    proof (rule exI [of _ "(p, c) # (p, Suc c) # rs"], intro conjI)
      show "stepLoop (p # rest) c (map emb (qs @ [(l, c)]))
          = Some (c + length (p # rest), map emb (qs @ (l, c) # (p, c) # (p, Suc c) # rs))"
        using True rs(1)
        by (simp add: Let_def num_greater_def emb_def to_number_def)
      show "sorted (map fst ((l, c) # (p, c) # (p, Suc c) # rs))"
        using rs(2) lp by auto
      show "sorted (map snd ((l, c) # (p, c) # (p, Suc c) # rs))"
        using rs(3) by auto
      show "last ((l, c) # (p, c) # (p, Suc c) # rs) = (last (l # p # rest), c + length (p # rest))"
        using rs(4) by simp
    qed
  next
    case False
    with lp have eq: "l = p" by simp
    from Cons.IH [OF srt low, of "Suc c" "qs @ [(l, c)]"]
    obtain rs where rs:
      "stepLoop rest (Suc c) (map emb ((qs @ [(l, c)]) @ [(p, Suc c)]))
         = Some (Suc c + length rest, map emb ((qs @ [(l, c)]) @ (p, Suc c) # rs))"
      "sorted (map fst ((p, Suc c) # rs))" "sorted (map snd ((p, Suc c) # rs))"
      "last ((p, Suc c) # rs) = (last (p # rest), Suc c + length rest)"
      by blast
    show ?thesis
    proof (rule exI [of _ "(p, Suc c) # rs"], intro conjI)
      show "stepLoop (p # rest) c (map emb (qs @ [(l, c)]))
          = Some (c + length (p # rest), map emb (qs @ (l, c) # (p, Suc c) # rs))"
        using eq rs(1)
        by (simp add: Let_def num_greater_def emb_def to_number_def)
      show "sorted (map fst ((l, c) # (p, Suc c) # rs))"
        using rs(2) lp by auto
      show "sorted (map snd ((l, c) # (p, Suc c) # rs))"
        using rs(3) by auto
      show "last ((l, c) # (p, Suc c) # rs) = (last (l # p # rest), c + length (p # rest))"
        using rs(4) by simp
    qed
  qed
qed

lemma sorted_wrt_emb_x:
  "sorted_wrt (\<lambda>a b. num_le (vx a) (vx b)) (map emb qs) = sorted (map fst qs)"
  by (simp add: sorted_wrt_map emb_def to_number_def)

lemma sorted_wrt_emb_y:
  "sorted_wrt (\<lambda>a b. num_le (vy a) (vy b)) (map emb qs) = sorted (map snd qs)"
  by (simp add: sorted_wrt_map emb_def to_number_def)

lemma sorted_le_last: "sorted (xs :: nat list) \<Longrightarrow> x \<in> set xs \<Longrightarrow> x \<le> last xs"
  by (induction xs) auto

lemma sorted_snoc_last:
  "sorted (xs :: nat list) \<Longrightarrow> xs \<noteq> [] \<Longrightarrow> last xs \<le> a \<Longrightarrow> sorted (xs @ [a])"
  by (auto simp: sorted_append dest: sorted_le_last)

lemma stepPoints_shape:
  assumes "sorted ps" "\<forall>p\<in>set ps. p \<le> maxN"
  shows "\<exists>rs. stepPoints ps maxN = Some (map emb (((0, 0) # rs) @ [(maxN, length ps)]))
      \<and> sorted (map fst (((0, 0) # rs) @ [(maxN, length ps)]))
      \<and> sorted (map snd (((0, 0) # rs) @ [(maxN, length ps)]))
      \<and> snd (last ((0, 0) # rs)) = length ps"
proof -
  from stepLoop_invariant [OF assms(1), of 0 0 "[]"]
  obtain rs where rs:
    "stepLoop ps 0 (map emb [(0, 0)]) = Some (length ps, map emb ((0, 0) # rs))"
    "sorted (map fst ((0, 0) # rs))" "sorted (map snd ((0, 0) # rs))"
    "last ((0, 0) # rs) = (last (0 # ps), length ps)"
    by auto
  have bound: "last (0 # ps) \<le> maxN"
    using assms(2) by (cases "ps = []") auto
  have "last (map fst ((0, 0) # rs)) = fst (last ((0, 0) # rs))"
    by (rule last_map) simp
  with rs(4) bound have lf: "last (map fst ((0, 0) # rs)) \<le> maxN"
    by simp
  have "last (map snd ((0, 0) # rs)) = snd (last ((0, 0) # rs))"
    by (rule last_map) simp
  with rs(4) have ls: "last (map snd ((0, 0) # rs)) \<le> length ps"
    by simp
  have sx: "sorted (map fst ((0, 0) # rs) @ [maxN])"
    using lf by (intro sorted_snoc_last rs(2)) simp_all
  have sy: "sorted (map snd ((0, 0) # rs) @ [length ps])"
    using ls by (intro sorted_snoc_last rs(3)) simp_all
  show ?thesis
  proof (rule exI [of _ rs], intro conjI)
    show "stepPoints ps maxN = Some (map emb (((0, 0) # rs) @ [(maxN, length ps)]))"
      using rs(1) by (simp add: stepPoints_def emb_def to_number_def)
    show "sorted (map fst (((0, 0) # rs) @ [(maxN, length ps)]))"
      using sx by simp
    show "sorted (map snd (((0, 0) # rs) @ [(maxN, length ps)]))"
      using sy by simp
    show "snd (last ((0, 0) # rs)) = length ps"
      using rs(4) by simp
  qed
qed

lemma primes_sorted: "sorted (primes maxN)"
  unfolding primes_def by (rule sorted_wrt_filter) (rule sorted_upt)

lemma primes_bounded: "\<forall>p\<in>set (primes maxN). p \<le> maxN"
  by (auto simp: primes_def)

lemma stepPoints_30:
  "stepPoints (primes 30) 30 = Some
     [Vector3 (Fin 0) (Fin 0) (Fin 0),
      Vector3 (Fin 2) (Fin 0) (Fin 0), Vector3 (Fin 2) (Fin 1) (Fin 0),
      Vector3 (Fin 3) (Fin 1) (Fin 0), Vector3 (Fin 3) (Fin 2) (Fin 0),
      Vector3 (Fin 5) (Fin 2) (Fin 0), Vector3 (Fin 5) (Fin 3) (Fin 0),
      Vector3 (Fin 7) (Fin 3) (Fin 0), Vector3 (Fin 7) (Fin 4) (Fin 0),
      Vector3 (Fin 11) (Fin 4) (Fin 0), Vector3 (Fin 11) (Fin 5) (Fin 0),
      Vector3 (Fin 13) (Fin 5) (Fin 0), Vector3 (Fin 13) (Fin 6) (Fin 0),
      Vector3 (Fin 17) (Fin 6) (Fin 0), Vector3 (Fin 17) (Fin 7) (Fin 0),
      Vector3 (Fin 19) (Fin 7) (Fin 0), Vector3 (Fin 19) (Fin 8) (Fin 0),
      Vector3 (Fin 23) (Fin 8) (Fin 0), Vector3 (Fin 23) (Fin 9) (Fin 0),
      Vector3 (Fin 29) (Fin 9) (Fin 0), Vector3 (Fin 29) (Fin 10) (Fin 0),
      Vector3 (Fin 30) (Fin 10) (Fin 0)]"
  by (simp add: primes_30 stepPoints_def Let_def num_greater_def to_number_def)

text \<open>
  C8. For every ordered sequence of primes up to the upper bound, the step sequence is
  built without error, starts at \<open>(0, 0)\<close>, is non-decreasing in the x coordinate and in
  the count coordinate, and ends with a horizontal segment to \<open>x = upperBound\<close> at the
  count of all the primes: its last point is \<open>(upperBound, count)\<close> and the point before
  it has the same count. For the primes up to 30 the points at \<open>x = 29\<close> are \<open>(29, 9)\<close>
  and \<open>(29, 10)\<close>: the count at 29 is 10.
\<close>

theorem stepPoints_monotone:
  assumes "sorted ps" "\<forall>p\<in>set ps. p \<le> maxN"
  shows "(\<exists>pts. stepPoints ps maxN = Some pts
       \<and> hd pts = Vector3 (Fin 0) (Fin 0) (Fin 0)
       \<and> sorted_wrt (\<lambda>a b. num_le (vx a) (vx b)) pts
       \<and> sorted_wrt (\<lambda>a b. num_le (vy a) (vy b)) pts
       \<and> last pts = Vector3 (to_number maxN) (to_number (length ps)) (Fin 0)
       \<and> vy (last (butlast pts)) = to_number (length ps))
     \<and> (\<exists>pts. stepPoints (primes 30) 30 = Some pts
       \<and> [v \<leftarrow> pts. vx v = Fin 29]
           = [Vector3 (Fin 29) (Fin 9) (Fin 0), Vector3 (Fin 29) (Fin 10) (Fin 0)])"
proof -
  from stepPoints_shape [OF assms] obtain rs where rs:
    "stepPoints ps maxN = Some (map emb (((0, 0) # rs) @ [(maxN, length ps)]))"
    "sorted (map fst (((0, 0) # rs) @ [(maxN, length ps)]))"
    "sorted (map snd (((0, 0) # rs) @ [(maxN, length ps)]))"
    "snd (last ((0, 0) # rs)) = length ps"
    by blast
  define pts where "pts = map emb (((0, 0) # rs) @ [(maxN, length ps)])"
  have first: "hd pts = Vector3 (Fin 0) (Fin 0) (Fin 0)"
    unfolding pts_def by (simp add: emb_def to_number_def)
  have sx: "sorted_wrt (\<lambda>a b. num_le (vx a) (vx b)) pts"
    unfolding pts_def sorted_wrt_emb_x by (rule rs(2))
  have sy: "sorted_wrt (\<lambda>a b. num_le (vy a) (vy b)) pts"
    unfolding pts_def sorted_wrt_emb_y by (rule rs(3))
  have final: "last pts = Vector3 (to_number maxN) (to_number (length ps)) (Fin 0)"
    unfolding pts_def by (simp add: emb_def)
  have "butlast pts = map emb ((0, 0) # rs)"
    unfolding pts_def by (simp add: butlast_append)
  then have "last (butlast pts) = emb (last ((0, 0) # rs))"
    by (simp only: last_map [OF list.distinct(2)])
  with rs(4) have before: "vy (last (butlast pts)) = to_number (length ps)"
    by (simp add: emb_def)
  have general: "\<exists>pts. stepPoints ps maxN = Some pts
       \<and> hd pts = Vector3 (Fin 0) (Fin 0) (Fin 0)
       \<and> sorted_wrt (\<lambda>a b. num_le (vx a) (vx b)) pts
       \<and> sorted_wrt (\<lambda>a b. num_le (vy a) (vy b)) pts
       \<and> last pts = Vector3 (to_number maxN) (to_number (length ps)) (Fin 0)
       \<and> vy (last (butlast pts)) = to_number (length ps)"
    using rs(1) first sx sy final before unfolding pts_def by blast
  have at_29: "\<exists>pts. stepPoints (primes 30) 30 = Some pts
       \<and> [v \<leftarrow> pts. vx v = Fin 29]
           = [Vector3 (Fin 29) (Fin 9) (Fin 0), Vector3 (Fin 29) (Fin 10) (Fin 0)]"
    by (simp add: stepPoints_30)
  from general at_29 show ?thesis ..
qed

theorem stepPoints_monotone_witness:
  "sorted (primes 30) \<and> primes 30 = [2, 3, 5, 7, 11, 13, 17, 19, 23, 29]
     \<and> (\<exists>pts. stepPoints (primes 30) 30 = Some pts
       \<and> hd pts = Vector3 (Fin 0) (Fin 0) (Fin 0)
       \<and> sorted_wrt (\<lambda>a b. num_le (vx a) (vx b)) pts
       \<and> sorted_wrt (\<lambda>a b. num_le (vy a) (vy b)) pts
       \<and> last pts = Vector3 (Fin 30) (Fin 10) (Fin 0))"
proof -
  from stepPoints_monotone [OF primes_sorted primes_bounded, of 30]
  obtain pts where pts: "stepPoints (primes 30) 30 = Some pts"
    "hd pts = Vector3 (Fin 0) (Fin 0) (Fin 0)"
    "sorted_wrt (\<lambda>a b. num_le (vx a) (vx b)) pts"
    "sorted_wrt (\<lambda>a b. num_le (vy a) (vy b)) pts"
    "last pts = Vector3 (to_number 30) (to_number (length (primes 30))) (Fin 0)"
    by blast
  from pts(5) have "last pts = Vector3 (Fin 30) (Fin 10) (Fin 0)"
    by (simp add: primes_30 to_number_def)
  with pts(1-4) primes_sorted [of 30] primes_30 show ?thesis by blast
qed

section \<open>Properties of the logarithmic integral\<close>




lemma liLoop_step:
  assumes "0 < d" "1 < x" "x \<le> to"
  shows "liLoop (Fin d) (Fin to) (Fin x) (Fin i) pts =
     liLoop (Fin d) (Fin to) (Fin (x + d)) (Fin (i + 1 / ln (x + d / 2) * d))
       (pts @ [Vector3 (Fin (x + d)) (Fin (i + 1 / ln (x + d / 2) * d)) (Fin 0)])"
proof -
  from assms have "1 < x + d / 2" by simp
  then have "0 < ln (x + d / 2)" by simp
  with assms \<open>1 < x + d / 2\<close> show ?thesis
    by (subst liLoop.simps) (simp add: Let_def)
qed

lemma liLoop_stop:
  "to < x \<Longrightarrow> liLoop (Fin d) (Fin to) (Fin x) (Fin i) pts = Some pts"
  by (subst liLoop.simps) simp








section \<open>Properties of the Riemann sum\<close>

lemma pairWaveY_Fin:
  "0 < x \<Longrightarrow> g \<noteq> 0 \<Longrightarrow>
     pairWaveY (Fin x) (Fin g) = Fin (- 2 * (sqrt x / g) * sin (g * ln x))"
  by (simp add: pairWaveY_def Let_def)

lemma gammas_values: "gammas = map Fin gamma_values"
  by (simp add: gammas_def gamma_values_def)

lemma gamma_values_nonzero: "\<forall>g\<in>set gamma_values. g \<noteq> 0"
  by (simp add: gamma_values_def)

lemma correction_foldl:
  "0 < x \<Longrightarrow> \<forall>g\<in>set gs. g \<noteq> 0 \<Longrightarrow>
     foldl (\<lambda>correction gamma. num_add correction (pairWaveY (Fin x) gamma)) (Fin a) (map Fin gs)
       = Fin (a + (\<Sum>g\<leftarrow>gs. - 2 * (sqrt x / g) * sin (g * ln x)))"
proof (induction gs arbitrary: a)
  case Nil
  show ?case by simp
next
  case (Cons g gs)
  then have "g \<noteq> 0" and rest: "\<forall>g\<in>set gs. g \<noteq> 0" by simp_all
  with Cons.prems(1) Cons.IH [OF Cons.prems(1) rest] show ?case
    by (simp add: pairWaveY_Fin add.assoc)
qed

lemma correction_gammas: "0 < x \<Longrightarrow> correction gammas (Fin x) = Fin (pair_sum x)"
  unfolding correction_def gammas_values pair_sum_def
  using correction_foldl [of x gamma_values 0] gamma_values_nonzero by simp

lemma liVal_loop_step:
  "t < x \<Longrightarrow> 1 < t \<Longrightarrow>
     liVal_loop (Fin 0.1) (Fin x) (Fin t) (Fin acc)
       = liVal_loop (Fin 0.1) (Fin x) (Fin (t + 1 / 10)) (Fin (acc + 1 / ln t * (1 / 10)))"
  by (subst liVal_loop.simps) simp

lemma liVal_loop_stop:
  "\<not> t < x \<Longrightarrow> liVal_loop (Fin 0.1) (Fin x) (Fin t) (Fin acc) = Some (Fin acc)"
  by (subst liVal_loop.simps) simp

lemma liVal_at_2_2:
  "liVal_loop (Fin 0.1) (Fin 2.2) (Fin 2) (Fin 0)
     = Some (Fin (1 / ln 2 * (1 / 10) + 1 / ln 2.1 * (1 / 10)))"
  by (simp add: liVal_loop_step liVal_loop_stop)

lemma inv_ln_less: "1 < u \<Longrightarrow> u < v \<Longrightarrow> 1 / ln v < 1 / ln (u::real)"
  by (simp add: frac_less2)

lemma left_rule_values:
  fixes a b c d e :: real
  defines "a \<equiv> 1 / ln 2" and "b \<equiv> 1 / ln 2.1" and "c \<equiv> 1 / ln 2.05"
    and "d \<equiv> 1 / ln 2.15" and "e \<equiv> 1 / ln 2.25"
  shows "0 < a + b" "c < a + b" "c + d < a + b" "a + b < c + d + e"
proof -
  have ca: "c < a" and bc: "b < c" and db: "d < b" and ed: "e < d"
    unfolding a_def b_def c_def d_def e_def by (rule inv_ln_less; simp)+
  have e0: "0 < e" unfolding e_def by simp
  have "ln (2.25::real) \<le> ln 4" by simp
  also have "ln (4::real) = ln (2 * 2)" by simp
  also have "\<dots> = 2 * ln 2" by (subst ln_mult_pos) simp_all
  finally have "1 / (2 * ln 2) \<le> 1 / ln (2.25::real)"
    by (intro divide_left_mono) simp_all
  then have "a \<le> 2 * e" by (simp add: a_def e_def)
  with ed have ade: "a < d + e" by linarith
  from ca bc db ed e0 show "0 < a + b" "c < a + b" "c + d < a + b" by linarith+
  from ade bc show "a + b < c + d + e" by linarith
qed

text \<open>
  C4. At the sample point \<open>x = 2.2\<close>, the second of the Riemann sum, the program adds
  \<open>1 / ln t\<close> at the left ends \<open>t = 2\<close> and \<open>t = 2.1\<close> of the two steps. The midpoint
  quadrature from 2 to 2.2 with step 0.1, which the claim names and the loop of the
  \<open>Li\<close> curve computes, gives the values 0, \<open>m1\<close>, \<open>m2\<close> and \<open>m3\<close> at 2, 2.1, 2.2 and
  2.3; the computed value at 2.2 is none of them plus the correction.
\<close>

theorem riemann_sum_left_endpoint_at_2_2:
  "logarithmicIntegral (Fin 2) (Fin 2.2) (Fin 0.1) =
     Some [Vector3 (Fin 2) (Fin 0) (Fin 0),
           Vector3 (Fin 2.1) (Fin (1 / ln 2.05 * 0.1)) (Fin 0),
           Vector3 (Fin 2.2) (Fin (1 / ln 2.05 * 0.1 + 1 / ln 2.15 * 0.1)) (Fin 0),
           Vector3 (Fin 2.3) (Fin (1 / ln 2.05 * 0.1 + 1 / ln 2.15 * 0.1 + 1 / ln 2.25 * 0.1)) (Fin 0)]
   \<and> totalY gammas (Fin 2.2) =
       Some (num_add (Fin (1 / ln 2 * 0.1 + 1 / ln 2.1 * 0.1)) (correction gammas (Fin 2.2)))
   \<and> totalY gammas (Fin 2.2) \<noteq> Some (num_add (Fin 0) (correction gammas (Fin 2.2)))
   \<and> totalY gammas (Fin 2.2) \<noteq>
       Some (num_add (Fin (1 / ln 2.05 * 0.1)) (correction gammas (Fin 2.2)))
   \<and> totalY gammas (Fin 2.2) \<noteq>
       Some (num_add (Fin (1 / ln 2.05 * 0.1 + 1 / ln 2.15 * 0.1)) (correction gammas (Fin 2.2)))
   \<and> totalY gammas (Fin 2.2) \<noteq>
       Some (num_add (Fin (1 / ln 2.05 * 0.1 + 1 / ln 2.15 * 0.1 + 1 / ln 2.25 * 0.1))
               (correction gammas (Fin 2.2)))"
proof -
  have li: "logarithmicIntegral (Fin 2) (Fin 2.2) (Fin 0.1) =
     Some [Vector3 (Fin 2) (Fin 0) (Fin 0),
           Vector3 (Fin 2.1) (Fin (1 / ln 2.05 * 0.1)) (Fin 0),
           Vector3 (Fin 2.2) (Fin (1 / ln 2.05 * 0.1 + 1 / ln 2.15 * 0.1)) (Fin 0),
           Vector3 (Fin 2.3) (Fin (1 / ln 2.05 * 0.1 + 1 / ln 2.15 * 0.1 + 1 / ln 2.25 * 0.1)) (Fin 0)]"
    by (simp add: logarithmicIntegral_def liLoop_step liLoop_stop)
  have c: "correction gammas (Fin 2.2) = Fin (pair_sum 2.2)"
    by (rule correction_gammas) simp
  have t: "totalY gammas (Fin 2.2)
      = Some (Fin (1 / ln 2 * (1 / 10) + 1 / ln 2.1 * (1 / 10) + pair_sum 2.2))"
    unfolding totalY_def liVal_at_2_2 c by simp
  note v = left_rule_values
  show ?thesis
    unfolding t c using li v by simp
qed

section \<open>The value of zeta at 2\<close>

lemma pow_real_2:
  assumes "1 \<le> n"
  shows "pow (to_number n) \<lparr> re = Fin 2, im = Fin 0 \<rparr> = \<lparr> re = Fin ((real n)\<^sup>2), im = Fin 0 \<rparr>"
proof -
  from assms have pos: "0 < real n" by simp
  have "exp (2 * ln (real n)) = (real n) powr 2"
    using pos by (simp add: powr_def)
  also have "\<dots> = (real n)\<^sup>2" using pos by simp
  finally show ?thesis
    using pos by (simp add: pow_def to_number_def Let_def)
qed

lemma inv_real_square:
  assumes "1 \<le> n"
  shows "inv_cn \<lparr> re = Fin ((real n)\<^sup>2), im = Fin 0 \<rparr> = \<lparr> re = Fin (1 / (real n)\<^sup>2), im = Fin 0 \<rparr>"
proof -
  from assms have "real n \<noteq> 0" by simp
  then show ?thesis
    by (simp add: inv_cn_def Let_def power2_eq_square)
qed

lemma eta_spec_real_2:
  "eta_spec \<lparr> re = Fin 2, im = Fin 0 \<rparr> terms = \<lparr> re = Fin (eta2 terms), im = Fin 0 \<rparr>"
proof (induction terms)
  case 0
  show ?case by (simp add: eta_spec_def)
next
  case (Suc t)
  have range: "[1 ..< Suc (Suc t)] = [1 ..< Suc t] @ [Suc t]" by simp
  have tm: "inv_cn (pow (to_number (Suc t)) \<lparr> re = Fin 2, im = Fin 0 \<rparr>)
      = \<lparr> re = Fin (1 / (real (Suc t))\<^sup>2), im = Fin 0 \<rparr>"
    by (simp only: pow_real_2 inv_real_square le_add1 Suc_eq_plus1_left)
  show ?case
    unfolding eta_spec_def range foldl_append
    unfolding eta_spec_def [symmetric] Suc.IH
    by (simp add: tm add_def sub_def del: of_nat_Suc)
qed

lemma denominator_2:
  "inv_cn (sub \<lparr> re = Fin 1, im = Fin 0 \<rparr> (pow (Fin 2) \<lparr> re = Fin (- 1), im = Fin 0 \<rparr>))
     = \<lparr> re = Fin 2, im = Fin 0 \<rparr>"
proof -
  have e: "exp (- ln (2::real)) = 1 / 2"
    by (simp add: exp_minus inverse_eq_divide)
  show ?thesis
    by (simp add: pow_def sub_def inv_cn_def Let_def e)
qed

lemma zeta_real_2:
  "zeta \<lparr> re = Fin 2, im = Fin 0 \<rparr> terms = \<lparr> re = Fin (eta2 terms * 2), im = Fin 0 \<rparr>"
  unfolding zeta_eta_spec eta_spec_real_2
  by (simp add: denominator_2 multiply_def)

lemma eta2_even_step:
  "eta2 (2 * Suc k) = eta2 (2 * k) + 1 / (real (2 * k + 1))\<^sup>2 - 1 / (real (2 * k + 2))\<^sup>2"
  by simp

lemma inv_square_mono: "0 < a \<Longrightarrow> a \<le> b \<Longrightarrow> 1 / (real b)\<^sup>2 \<le> 1 / (real a)\<^sup>2"
  by (intro divide_left_mono) (simp_all add: power_mono)

lemma eta2_even_mono: "eta2 (2 * k) \<le> eta2 (2 * (k + j))"
proof (induction j)
  case 0
  show ?case by simp
next
  case (Suc j)
  have "1 / (real (2 * (k + j) + 2))\<^sup>2 \<le> 1 / (real (2 * (k + j) + 1))\<^sup>2"
    by (rule inv_square_mono) simp_all
  then have "eta2 (2 * (k + j)) \<le> eta2 (2 * Suc (k + j))"
    unfolding eta2_even_step by linarith
  with Suc show ?case by simp
qed

lemma eta2_odd_antimono:
  "eta2 (2 * (k + j)) + 1 / (real (2 * (k + j) + 1))\<^sup>2 \<le> eta2 (2 * k) + 1 / (real (2 * k + 1))\<^sup>2"
proof (induction j)
  case 0
  show ?case by simp
next
  case (Suc j)
  have "1 / (real (2 * (k + j) + 3))\<^sup>2 \<le> 1 / (real (2 * (k + j) + 2))\<^sup>2"
    by (rule inv_square_mono) simp_all
  moreover have idx: "2 * Suc (k + j) + 1 = 2 * (k + j) + 3" by simp
  ultimately have "eta2 (2 * Suc (k + j)) + 1 / (real (2 * Suc (k + j) + 1))\<^sup>2
       \<le> eta2 (2 * (k + j)) + 1 / (real (2 * (k + j) + 1))\<^sup>2"
    unfolding idx eta2_even_step [of "k + j"] by linarith
  with Suc show ?case by simp
qed

lemma eta2_Suc: "eta2 (Suc n) = eta2 n + (- 1) ^ n / (real (Suc n))\<^sup>2"
  by simp

lemma eta2_12: "eta2 12 = 629535127 / 768398400"
  by (simp add: eval_nat_numeral eta2_Suc del: eta2.simps(2))

lemma eta2_200_bounds: "629535127 / 768398400 \<le> eta2 200" "eta2 200 \<le> 107159834863 / 129859329600"
proof -
  have "eta2 (2 * 6) \<le> eta2 (2 * (6 + 94))" by (rule eta2_even_mono)
  then show "629535127 / 768398400 \<le> eta2 200" by (simp add: eta2_12)
  have "eta2 (2 * (6 + 94)) + 1 / (real (2 * (6 + 94) + 1))\<^sup>2 \<le> eta2 (2 * 6) + 1 / (real (2 * 6 + 1))\<^sup>2"
    by (rule eta2_odd_antimono)
  then have "eta2 200 + 1 / 201\<^sup>2 \<le> 629535127 / 768398400 + 1 / 13\<^sup>2"
    by (simp add: eta2_12)
  then show "eta2 200 \<le> 107159834863 / 129859329600" by simp
qed

lemma cos_poly_bound:
  "\<bar>cos x - (\<Sum>m<n. cos_coeff m * x ^ m)\<bar> \<le> \<bar>x\<bar> ^ n / fact n"
proof -
  from Maclaurin_cos_expansion [of x n] obtain t where
    "cos x = (\<Sum>m<n. cos_coeff m * x ^ m) + (cos (t + 1/2 * real n * pi) / fact n) * x ^ n"
    by blast
  then have "\<bar>cos x - (\<Sum>m<n. cos_coeff m * x ^ m)\<bar>
      = \<bar>cos (t + 1/2 * real n * pi)\<bar> * (\<bar>x\<bar> ^ n / fact n)"
    by (simp add: abs_mult power_abs)
  also have "\<dots> \<le> 1 * (\<bar>x\<bar> ^ n / fact n)"
    by (intro mult_right_mono) simp_all
  finally show ?thesis by simp
qed

lemma cos_poly_10:
  "(\<Sum>m<10. cos_coeff m * x ^ m) = 1 - x\<^sup>2 / 2 + x ^ 4 / 24 - x ^ 6 / 720 + x ^ 8 / 40320"
proof -
  have "{..<10::nat} = {0, 1, 2, 3, 4, 5, 6, 7, 8, 9}" by auto
  then show ?thesis by (simp add: cos_coeff_def fact_numeral)
qed

lemma pi_bounds: "3.14 < pi" "pi < 3.142"
proof -
  have "(0::real) < 1 - 1.57\<^sup>2 / 2 + 1.57 ^ 4 / 24 - 1.57 ^ 6 / 720 + 1.57 ^ 8 / 40320
      - \<bar>1.57\<bar> ^ 10 / fact 10"
    by (simp add: fact_numeral power_divide)
  with cos_poly_bound [of "1.57" 10] have lo: "0 < cos (1.57::real)"
    unfolding cos_poly_10 by linarith
  have "1 - 1.571\<^sup>2 / 2 + 1.571 ^ 4 / 24 - 1.571 ^ 6 / 720 + 1.571 ^ 8 / 40320
      + \<bar>1.571\<bar> ^ 10 / fact 10 < (0::real)"
    by (simp add: fact_numeral power_divide)
  with cos_poly_bound [of "1.571" 10] have hi: "cos (1.571::real) < 0"
    unfolding cos_poly_10 by linarith
  have "(1.57::real) < pi / 2"
  proof (rule ccontr)
    assume "\<not> (1.57::real) < pi / 2"
    then have "pi / 2 \<le> (1.57::real)" by simp
    moreover have "(1.57::real) \<le> pi" using pi_ge_two by simp
    ultimately have "cos (1.57::real) \<le> cos (pi / 2)"
      by (intro cos_monotone_0_pi_le) simp_all
    with lo show False by simp
  qed
  then show "3.14 < pi" by simp
  have "pi / 2 < (1.571::real)"
  proof (rule ccontr)
    assume "\<not> pi / 2 < (1.571::real)"
    then have "(1.571::real) \<le> pi / 2" by simp
    then have "0 \<le> cos (1.571::real)" by (intro cos_ge_zero) simp_all
    with hi show False by simp
  qed
  then show "pi < 3.142" by simp
qed

lemma basel_bounds: "16432 / 10000 < pi\<^sup>2 / 6" "pi\<^sup>2 / 6 < 16454 / 10000"
proof -
  have "3.14\<^sup>2 < pi\<^sup>2" using pi_bounds(1) by (intro power_strict_mono) simp_all
  then show "16432 / 10000 < pi\<^sup>2 / 6" by (simp add: power_divide)
  have "pi\<^sup>2 < 3.142\<^sup>2" using pi_bounds(2) by (intro power_strict_mono) simp_all
  then show "pi\<^sup>2 / 6 < 16454 / 10000" by (simp add: power_divide)
qed

text \<open>
  C2. \<open>zeta\<close> at \<open>(2, 0)\<close> with 200 terms is the complex number whose real part is twice
  the 200th partial sum of \<open>1 - 1/4 + 1/9 - \<dots>\<close> and whose imaginary part is 0; the real
  part is within \<open>1/100\<close> of \<open>pi\<^sup>2 / 6\<close>.
\<close>

theorem zeta_2_200_near_basel:
  "zeta \<lparr> re = Fin 2, im = Fin 0 \<rparr> 200 = \<lparr> re = Fin (eta2 200 * 2), im = Fin 0 \<rparr>
   \<and> \<bar>eta2 200 * 2 - pi\<^sup>2 / 6\<bar> < 1 / 100"
proof -
  have "- (1 / 100) < eta2 200 * 2 - pi\<^sup>2 / 6 \<and> eta2 200 * 2 - pi\<^sup>2 / 6 < 1 / 100"
    using eta2_200_bounds basel_bounds by linarith
  then have "\<bar>eta2 200 * 2 - pi\<^sup>2 / 6\<bar> < 1 / 100"
    unfolding abs_less_iff by linarith
  then show ?thesis by (simp add: zeta_real_2)
qed

section \<open>Properties of the waves\<close>

lemma waveY_Fin:
  "0 < x \<Longrightarrow> g \<noteq> 0 \<Longrightarrow>
     waveY (Fin x) (Fin g) = Fin (- (sqrt x / \<bar>g\<bar>) * sin (g * ln x))"
  by (simp add: waveY_def Let_def)

text \<open>
  With \<^verbatim>\<open>Math.abs(gamma)\<close> in the amplitude and \<open>gamma\<close> itself in the phase, the wave
  term is odd in \<open>gamma\<close>: the terms of \<open>gamma\<close> and \<open>- gamma\<close> cancel, and the term of the
  pair in the Riemann sum is twice the term of the positive \<open>gamma\<close>.
\<close>

lemma waveY_odd:
  assumes "0 < x" "0 < g"
  shows "waveY (Fin x) (num_neg (Fin g)) = num_neg (waveY (Fin x) (Fin g))"
    and "num_add (waveY (Fin x) (Fin g)) (waveY (Fin x) (num_neg (Fin g))) = Fin 0"
    and "pairWaveY (Fin x) (Fin g) = num_mul (Fin 2) (waveY (Fin x) (Fin g))"
  using assms by (simp_all add: waveY_Fin pairWaveY_Fin)

lemma ln_2_bounds: "67 / 100 < ln (2::real)" "ln (2::real) < 8 / 9"
proof -
  have "1 + 8 / 9 + (8 / 9)\<^sup>2 / 2 \<le> exp (8 / 9 :: real)"
    by (rule exp_lower_Taylor_quadratic) simp
  then have "2 < exp (8 / 9 :: real)" by (simp add: power2_eq_square)
  then have "ln 2 < ln (exp (8 / 9 :: real))" by (subst ln_less_cancel_iff) simp_all
  then show "ln (2::real) < 8 / 9" by simp
  obtain t :: real where t: "\<bar>t\<bar> \<le> \<bar>67 / 100\<bar>"
    and e: "exp (67 / 100) = (\<Sum>m<4. (67 / 100) ^ m / fact m) + exp t / fact 4 * (67 / 100) ^ 4"
    using Maclaurin_exp_le [of "67 / 100" 4] by blast
  from t have "t \<le> 1" by simp
  then have "exp t \<le> exp 1" by simp
  also have "exp (1::real) \<le> 1 + 1 + 1\<^sup>2" by (rule exp_bound) simp_all
  finally have et: "exp t \<le> 3" by simp
  have set4: "{..<4::nat} = {0, 1, 2, 3}" by auto
  have "exp t / fact 4 * (67 / 100) ^ 4 \<le> 3 / fact 4 * (67 / 100) ^ 4"
    using et by (intro mult_right_mono divide_right_mono) simp_all
  then have "exp (67 / 100 :: real) < 2"
    unfolding e set4 by (simp add: fact_numeral power_divide)
  then have "ln (exp (67 / 100 :: real)) < ln 2" by (subst ln_less_cancel_iff) simp_all
  then show "67 / 100 < ln (2::real)" by simp
qed

lemma sin_first_gamma_neg: "sin (14.13 * ln (2::real)) < 0"
proof -
  define y :: real where "y = 14.13 * ln 2 - 3 * pi"
  have "0 < y" "y < pi"
    using ln_2_bounds pi_bounds by (simp_all add: y_def)
  then have "0 < sin y" by (rule sin_gt_zero)
  moreover have eq: "14.13 * ln 2 = y + pi + 2 * pi" by (simp add: y_def)
  have "sin (14.13 * ln 2) = sin (y + pi + 2 * pi)" by (subst eq) (rule refl)
  then have "sin (14.13 * ln 2) = - sin y" by (simp only: sin_periodic sin_periodic_pi)
  ultimately show ?thesis by simp
qed

text \<open>
  C3. At the first sample \<open>x = 2\<close> and the first pair of zeros, \<open>gamma = 14.13\<close> (the first
  entry of \<^verbatim>\<open>gammas\<close>) and \<open>- 14.13\<close> (the eleventh of \<^verbatim>\<open>allGammas\<close>), the wave
  term of \<open>- gamma\<close> is the opposite of the wave term of \<open>gamma\<close>, so the two terms of the
  pair sum to 0, while the combined correction of the Riemann sum,
  \<open>- 2 * (sqrt 2 / 14.13) * sin (14.13 * ln 2)\<close>, is positive.
\<close>

theorem wave_pair_cancels_at_first_gamma:
  "hd gammas = Fin 14.13 \<and> allGammas ! 10 = num_neg (Fin 14.13)
   \<and> waveY (Fin 2) (Fin 14.13) = Fin (- (sqrt 2 / 14.13) * sin (14.13 * ln 2))
   \<and> waveY (Fin 2) (num_neg (Fin 14.13)) = Fin (sqrt 2 / 14.13 * sin (14.13 * ln 2))
   \<and> num_add (waveY (Fin 2) (Fin 14.13)) (waveY (Fin 2) (num_neg (Fin 14.13))) = Fin 0
   \<and> pairWaveY (Fin 2) (Fin 14.13) = Fin (- 2 * (sqrt 2 / 14.13) * sin (14.13 * ln 2))
   \<and> num_less (Fin 0) (pairWaveY (Fin 2) (Fin 14.13))"
proof -
  have lists: "hd gammas = Fin 14.13" "allGammas ! 10 = num_neg (Fin 14.13)"
    by (simp_all add: allGammas_def gammas_def)
  have w: "waveY (Fin 2) (Fin 14.13) = Fin (- (sqrt 2 / 14.13) * sin (14.13 * ln 2))"
    by (simp add: waveY_Fin)
  have w': "waveY (Fin 2) (num_neg (Fin 14.13)) = Fin (sqrt 2 / 14.13 * sin (14.13 * ln 2))"
    by (simp add: waveY_Fin)
  have sum: "num_add (waveY (Fin 2) (Fin 14.13)) (waveY (Fin 2) (num_neg (Fin 14.13))) = Fin 0"
    by (rule waveY_odd) simp_all
  have pair: "pairWaveY (Fin 2) (Fin 14.13) = Fin (- 2 * (sqrt 2 / 14.13) * sin (14.13 * ln 2))"
    by (simp add: pairWaveY_Fin)
  have "0 < - 2 * (sqrt 2 / 14.13) * sin (14.13 * ln (2::real))"
    using sin_first_gamma_neg by (simp add: zero_less_mult_iff mult_less_0_iff)
  then have pos: "num_less (Fin 0) (pairWaveY (Fin 2) (Fin 14.13))"
    unfolding pair by simp
  from lists w w' sum pair pos show ?thesis by (intro conjI)
qed

end
